theory Spec2Isabelle
  imports Complex_Main "HOL-Library.Word" "HOL-Library.AList"
begin

unbundle bit_operations_syntax

section \<open>Bytes and Python slices\<close>

text \<open>
  A Python \<open>bytes\<close> or \<open>bytearray\<close> value is a list of 8-bit words. Python's
  unbounded integers are \<open>int\<close>; lengths and positions that cannot be negative are
  \<open>nat\<close>.
\<close>

type_synonym byte = "8 word"

text \<open>\<open>xs[a:b]\<close> for \<open>0 \<le> a \<le> b\<close>: the slice is clamped to the sequence.\<close>

definition py_slice :: "'a list \<Rightarrow> nat \<Rightarrow> nat \<Rightarrow> 'a list" where
  "py_slice xs a b = take (b - a) (drop a xs)"

text \<open>\<open>xs[:n]\<close> for any integer \<open>n\<close>: a negative bound counts from the end.\<close>

definition py_slice_to :: "'a list \<Rightarrow> int \<Rightarrow> 'a list" where
  "py_slice_to xs n = (if n < 0 then take (nat (int (length xs) + n)) xs else take (nat n) xs)"

text \<open>\<open>xs[-n:]\<close> for \<open>n > 0\<close>: the last \<open>n\<close> elements, all of them when there are fewer.\<close>

definition py_slice_last :: "'a list \<Rightarrow> nat \<Rightarrow> 'a list" where
  "py_slice_last xs n = drop (length xs - n) xs"

section \<open>The stream cipher: \<open>xor_numpy\<close>\<close>

text \<open>
  \<open>np.resize(a, n)\<close> on a one-dimensional array: an empty array gives \<open>n\<close> zeros,
  otherwise the array is concatenated with itself \<open>ceil(n / len(a))\<close> times and cut to
  \<open>n\<close> elements.
\<close>

definition np_resize :: "byte list \<Rightarrow> nat \<Rightarrow> byte list" where
  "np_resize a n =
     (if a = [] then replicate n 0
      else take n (concat (replicate ((n + length a - 1) div length a) a)))"

text \<open>
  \<^verbatim>\<open>
  def xor_numpy(data, xork):
      arr = np.frombuffer(data, dtype=np.uint8)
      key_arr = np.frombuffer(xork, dtype=np.uint8)
      tiled = np.resize(key_arr, arr.shape)
      result = np.bitwise_xor(arr, tiled)
      return result.tobytes()
  \<close>
  \<open>tiled\<close> has the shape of \<open>arr\<close>, so the element-wise xor pairs position with position.
\<close>

definition xor_numpy :: "byte list \<Rightarrow> byte list \<Rightarrow> byte list" where
  "xor_numpy data xork =
     (let arr = data;
          key_arr = xork;
          tiled = np_resize key_arr (length arr)
      in map2 (XOR) arr tiled)"

section \<open>Exceptions\<close>

text \<open>
  The program defines no exception class of its own: every failure is an exception of
  Python or of a library, and the model returns it as the left summand of \<open>py_error + 'a\<close>.
  \<open>OSError\<close> stands for the plain \<open>OSError\<close> (errno \<open>EINVAL\<close>) that a seek to a
  negative position raises; its subclasses that the filesystem calls raise are listed by
  name. \<open>StructError\<close> is \<open>struct.error\<close>.
\<close>

datatype py_error =
    OSError
  | FileNotFoundError
  | FileExistsError
  | NotADirectoryError
  | IsADirectoryError
  | StructError
  | UnicodeDecodeError
  | ValueError
  | ZeroDivisionError

section \<open>Binary file objects\<close>

text \<open>
  A file opened with mode \<open>"rb"\<close>: its bytes and the position of the cursor. A seek that
  would put the cursor before the start raises \<open>OSError\<close>; a seek past the end is
  allowed and a read there returns no bytes. \<open>read(n)\<close> returns at most \<open>n\<close> bytes,
  everything up to the end for \<open>n = -1\<close>, and raises \<open>ValueError\<close> for \<open>n < -1\<close>.
  The limits of the machine are not modelled: a real \<open>read(n)\<close> raises \<open>MemoryError\<close>
  when \<open>n\<close> bytes cannot be allocated, and a real seek raises \<open>OSError\<close> for an offset
  beyond what the filesystem supports. So for an offset or a size taken from an entry
  of the container the model may return where the program raises, and the statements
  about the extraction of an entry are about the runs that complete.
\<close>

record pyfile =
  content :: "byte list"
  pos :: nat

definition open_rb :: "byte list \<Rightarrow> pyfile" where
  "open_rb bs = \<lparr>content = bs, pos = 0\<rparr>"


definition seek_end :: "pyfile \<Rightarrow> int \<Rightarrow> py_error + pyfile" where
  "seek_end f off =
     (let p = int (length (content f)) + off
      in if p < 0 then Inl OSError else Inr (f\<lparr>pos := nat p\<rparr>))"

definition file_read :: "pyfile \<Rightarrow> int \<Rightarrow> py_error + (byte list \<times> pyfile)" where
  "file_read f n =
     (if n < - 1 then Inl ValueError
      else let avail = drop (pos f) (content f);
               data = (if n = - 1 then avail else take (nat n) avail)
           in Inr (data, f\<lparr>pos := pos f + length data\<rparr>))"

section \<open>\<open>struct.unpack\<close> and text decoding\<close>

text \<open>Little-endian integers; \<open>struct.unpack\<close> raises when the buffer has the wrong size.\<close>

fun le_uint :: "byte list \<Rightarrow> nat" where
  "le_uint [] = 0"
| "le_uint (b # bs) = unat b + 256 * le_uint bs"

definition le_sint :: "byte list \<Rightarrow> int" where
  "le_sint bs =
     (let u = int (le_uint bs); m = 2 ^ (8 * length bs)
      in if u < m div 2 then u else u - m)"

definition unpack_bytes :: "nat \<Rightarrow> byte list \<Rightarrow> py_error + byte list" where
  "unpack_bytes n bs = (if length bs = n then Inr bs else Inl StructError)"

definition unpack_uint :: "nat \<Rightarrow> byte list \<Rightarrow> py_error + nat" where
  "unpack_uint n bs = (if length bs = n then Inr (le_uint bs) else Inl StructError)"

definition unpack_sint :: "nat \<Rightarrow> byte list \<Rightarrow> py_error + int" where
  "unpack_sint n bs = (if length bs = n then Inr (le_sint bs) else Inl StructError)"

text \<open>\<open>io.BytesIO.read(n)\<close>: the bytes read and the bytes left.\<close>

definition bytesio_read :: "byte list \<Rightarrow> nat \<Rightarrow> byte list \<times> byte list" where
  "bytesio_read buf n = (take n buf, drop n buf)"

text \<open>
  A Python \<open>str\<close> is modelled by its UTF-8 encoding, one \<open>char\<close> per byte.
  \<open>bytes.decode()\<close> is the strict UTF-8 decoder: it raises on a stray continuation
  byte, a truncated or overlong sequence, a surrogate and a code point above U+10FFFF.
\<close>

definition is_cont :: "byte \<Rightarrow> bool" where
  "is_cont c = (0x80 \<le> c \<and> c \<le> 0xBF)"

fun utf8_valid :: "byte list \<Rightarrow> bool" where
  "utf8_valid [] = True"
| "utf8_valid (b # bs) =
     (if b < 0x80 then utf8_valid bs
      else if 0xC2 \<le> b \<and> b \<le> 0xDF then
        (case bs of c1 # r \<Rightarrow> is_cont c1 \<and> utf8_valid r | _ \<Rightarrow> False)
      else if 0xE0 \<le> b \<and> b \<le> 0xEF then
        (case bs of
           c1 # c2 # r \<Rightarrow>
             (if b = 0xE0 then 0xA0 \<le> c1 \<and> c1 \<le> 0xBF
              else if b = 0xED then 0x80 \<le> c1 \<and> c1 \<le> 0x9F
              else is_cont c1) \<and> is_cont c2 \<and> utf8_valid r
         | _ \<Rightarrow> False)
      else if 0xF0 \<le> b \<and> b \<le> 0xF4 then
        (case bs of
           c1 # c2 # c3 # r \<Rightarrow>
             (if b = 0xF0 then 0x90 \<le> c1 \<and> c1 \<le> 0xBF
              else if b = 0xF4 then 0x80 \<le> c1 \<and> c1 \<le> 0x8F
              else is_cont c1) \<and> is_cont c2 \<and> is_cont c3 \<and> utf8_valid r
         | _ \<Rightarrow> False)
      else False)"

definition decode_utf8 :: "byte list \<Rightarrow> py_error + string" where
  "decode_utf8 bs =
     (if utf8_valid bs then Inr (map (\<lambda>b. char_of (unat b)) bs) else Inl UnicodeDecodeError)"

section \<open>One file-table entry: \<open>KsPckFile\<close>\<close>

definition FILE_PATH_SZ :: nat where
  "FILE_PATH_SZ = 0xE0"




record kspckfile =
  file_path :: string
  align_0E0 :: int
  inf_flags :: int
  path_leng :: int
  path_fnv1 :: nat
  file_size :: int
  file_offs :: int

text \<open>
  \<^verbatim>\<open>
  def __init__(self, raw):
      self.raw = io.BytesIO(raw)
      max_path = self.FILE_PATH_SZ
      self.file_path = struct.unpack(f"<{max_path}s", self.raw.read(max_path))[0]
      self.align_0E0 = struct.unpack("<i", self.raw.read(4))[0]
      self.inf_flags = struct.unpack("<h", self.raw.read(2))[0]
      self.path_leng = struct.unpack("<h", self.raw.read(2))[0]
      self.path_fnv1 = struct.unpack("<Q", self.raw.read(8))[0]
      self.file_size = struct.unpack("<q", self.raw.read(8))[0]
      self.file_offs = struct.unpack("<q", self.raw.read(8))[0]
      self.file_path = str(self.file_path[:self.path_leng].decode())
      self.inf_flags = KsPckFile.FileFlags(self.inf_flags)
  \<close>
  A read from the \<open>BytesIO\<close> never fails (a short buffer gives fewer bytes), so the seven
  reads are written first; the unpacks follow in the order of the source, and the first
  one that fails decides the exception.
\<close>

definition KsPckFile :: "byte list \<Rightarrow> py_error + kspckfile" where
  "KsPckFile raw =
     (let max_path = FILE_PATH_SZ;
          (b0, r0) = bytesio_read raw max_path;
          (b1, r1) = bytesio_read r0 4;
          (b2, r2) = bytesio_read r1 2;
          (b3, r3) = bytesio_read r2 2;
          (b4, r4) = bytesio_read r3 8;
          (b5, r5) = bytesio_read r4 8;
          (b6, r6) = bytesio_read r5 8
      in case unpack_bytes max_path b0 of Inl e \<Rightarrow> Inl e | Inr raw_path \<Rightarrow>
        (case unpack_sint 4 b1 of Inl e \<Rightarrow> Inl e | Inr align \<Rightarrow>
        (case unpack_sint 2 b2 of Inl e \<Rightarrow> Inl e | Inr flags \<Rightarrow>
        (case unpack_sint 2 b3 of Inl e \<Rightarrow> Inl e | Inr leng \<Rightarrow>
        (case unpack_uint 8 b4 of Inl e \<Rightarrow> Inl e | Inr fnv1 \<Rightarrow>
        (case unpack_sint 8 b5 of Inl e \<Rightarrow> Inl e | Inr fsize \<Rightarrow>
        (case unpack_sint 8 b6 of Inl e \<Rightarrow> Inl e | Inr offs \<Rightarrow>
        (case decode_utf8 (py_slice_to raw_path leng) of Inl e \<Rightarrow> Inl e | Inr path \<Rightarrow>
           Inr \<lparr>file_path = path, align_0E0 = align, inf_flags = flags, path_leng = leng,
                path_fnv1 = fnv1, file_size = fsize, file_offs = offs\<rparr>))))))))"

section \<open>The container index: \<open>KsPck\<close>\<close>

definition FILE_TBL_SZ :: nat where
  "FILE_TBL_SZ = push_bit 24 2"

definition FILE_ITM_SZ :: nat where
  "FILE_ITM_SZ = push_bit 8 1"

text \<open>
  \<open>self.files\<close> is a Python dict: an association list in insertion order, where
  assigning to a key that is present replaces its value in place (\<open>AList.update\<close>).
\<close>

type_synonym file_index = "(nat \<times> kspckfile) list"

record kspck =
  files :: file_index
  fp :: pyfile
  xork :: "byte list option"
  ftbl :: "byte list option"

definition KsPck :: "byte list \<Rightarrow> kspck" where
  "KsPck container = \<lparr>files = [], fp = open_rb container, xork = None, ftbl = None\<rparr>"

text \<open>
  The loop of \<open>parse_file_tbl\<close>, from iteration \<open>i\<close> on:
  \<^verbatim>\<open>
  for i in range(0, int(self.FILE_TBL_SZ / self.FILE_ITM_SZ)):
      idx = i * self.FILE_ITM_SZ
      file_entry = self.ftbl[idx : idx + self.FILE_ITM_SZ]
      file_entry = KsPckFile(file_entry)
      if file_entry.path_fnv1 == 0:
          break
      self.files[file_entry.path_fnv1] = file_entry
  \<close>
  Both sizes are powers of two, so the float quotient is the exact integer quotient.
\<close>

function parse_loop :: "nat \<Rightarrow> byte list \<Rightarrow> file_index \<Rightarrow> py_error + file_index" where
  "parse_loop i tbl fs =
     (if i < FILE_TBL_SZ div FILE_ITM_SZ then
        (let idx = i * FILE_ITM_SZ;
             file_entry = py_slice tbl idx (idx + FILE_ITM_SZ)
         in case KsPckFile file_entry of
              Inl e \<Rightarrow> Inl e
            | Inr file_entry \<Rightarrow>
                if path_fnv1 file_entry = 0 then Inr fs
                else parse_loop (i + 1) tbl (AList.update (path_fnv1 file_entry) file_entry fs))
      else Inr fs)"
  by pat_completeness auto
termination
  by (relation "measure (\<lambda>(i, tbl, fs). FILE_TBL_SZ div FILE_ITM_SZ - i)") auto

declare parse_loop.simps [simp del]

text \<open>
  \<^verbatim>\<open>
  def parse_file_tbl(self):
      self.fp.seek(-self.FILE_TBL_SZ, 2)
      self.ftbl = self.fp.read(self.FILE_TBL_SZ)
      self.xork = self.ftbl[-8:]
      self.ftbl = bytearray(xor_numpy(self.ftbl, self.xork))
      for i in ...
  \<close>
\<close>

definition parse_file_tbl :: "kspck \<Rightarrow> py_error + kspck" where
  "parse_file_tbl self =
     (case seek_end (fp self) (- int FILE_TBL_SZ) of
        Inl e \<Rightarrow> Inl e
      | Inr f1 \<Rightarrow>
          (case file_read f1 (int FILE_TBL_SZ) of
             Inl e \<Rightarrow> Inl e
           | Inr (raw_tbl, f2) \<Rightarrow>
               (let key = py_slice_last raw_tbl 8;
                    tbl = xor_numpy raw_tbl key
                in (case parse_loop 0 tbl (files self) of
                      Inl e \<Rightarrow> Inl e
                    | Inr fs \<Rightarrow>
                        Inr (self\<lparr>files := fs, fp := f2, xork := Some key, ftbl := Some tbl\<rparr>)))))"

section \<open>The progress tracker\<close>

text \<open>
  The printed line is kept as its parts: the bar, the percentage, and the two counters.
  The percentage is the exact quotient; the rounding of Python's floats is not modelled.
  \<open>/\<close> and \<open>//\<close> raise \<open>ZeroDivisionError\<close> on a zero divisor.
\<close>

datatype glyph = Block | Dash

record progress_line =
  bar :: "glyph list"
  percentage :: rat
  shown_completed :: int
  shown_total :: int

record progress_tracker =
  total :: int
  completed :: int

definition ProgressTracker :: "int \<Rightarrow> progress_tracker" where
  "ProgressTracker n = \<lparr>total = n, completed = 0\<rparr>"

definition py_truediv :: "int \<Rightarrow> int \<Rightarrow> py_error + rat" where
  "py_truediv a b = (if b = 0 then Inl ZeroDivisionError else Inr (of_int a / of_int b))"

definition py_floordiv :: "int \<Rightarrow> int \<Rightarrow> py_error + int" where
  "py_floordiv a b = (if b = 0 then Inl ZeroDivisionError else Inr (a div b))"

text \<open>
  \<^verbatim>\<open>
  def print_progress(self):
      percentage = (self.completed / self.total) * 100 if self.total else 100
      bar_length = 40
      filled_length = int(bar_length * self.completed // self.total) if self.total else bar_length
      bar = BLOCK * filled_length + '-' * (bar_length - filled_length)
      print(f'\rProgress: |{bar}| {percentage:.2f}% ({self.completed}/{self.total})', ...)
  \<close>
  A string times a negative number is the empty string.
\<close>

definition print_progress :: "progress_tracker \<Rightarrow> py_error + progress_line" where
  "print_progress self =
     (case (if total self \<noteq> 0
            then (case py_truediv (completed self) (total self) of
                    Inl e \<Rightarrow> Inl e | Inr q \<Rightarrow> Inr (q * 100))
            else Inr 100) of
        Inl e \<Rightarrow> Inl e
      | Inr pct \<Rightarrow>
          (let bar_length = 40
           in (case (if total self \<noteq> 0
                     then py_floordiv (bar_length * completed self) (total self)
                     else Inr bar_length) of
                 Inl e \<Rightarrow> Inl e
               | Inr filled_length \<Rightarrow>
                   Inr \<lparr>bar = replicate (nat filled_length) Block
                               @ replicate (nat (bar_length - filled_length)) Dash,
                        percentage = pct,
                        shown_completed = completed self,
                        shown_total = total self\<rparr>)))"

definition update_progress :: "progress_tracker \<Rightarrow> py_error + (progress_tracker \<times> progress_line)" where
  "update_progress self =
     (let self' = self\<lparr>completed := completed self + 1\<rparr>
      in case print_progress self' of
           Inl e \<Rightarrow> Inl e
         | Inr line \<Rightarrow> Inr (self', line))"

section \<open>Paths and the output tree\<close>

text \<open>
  \<open>pathlib.Path(s)\<close> in its POSIX flavour: the string is split at \<open>/\<close>, empty parts
  and \<open>.\<close> parts are dropped, and the path is absolute when the string starts with
  \<open>/\<close>. \<open>p / q\<close> is \<open>q\<close> when \<open>q\<close> is absolute and \<open>p\<close> followed by the parts of
  \<open>q\<close> otherwise. The parent of a path without parts is the path itself.
\<close>

type_synonym path = "bool \<times> string list"















section \<open>Extracting one entry\<close>






section \<open>Chunks of the table, and example containers\<close>

text \<open>
  Names for what the statements below talk about: chunk \<open>j\<close> of a table is the slice the
  loop decodes in iteration \<open>j\<close>; the trailer of a container is what \<open>parse_file_tbl\<close>
  reads after its seek; \<open>insert_all\<close> is the assignment \<open>self.files[fp] = entry\<close> done
  for a list of entries in order.
\<close>

definition chunk :: "byte list \<Rightarrow> nat \<Rightarrow> byte list" where
  "chunk tbl j = py_slice tbl (j * FILE_ITM_SZ) (j * FILE_ITM_SZ + FILE_ITM_SZ)"

definition trailer :: "byte list \<Rightarrow> byte list" where
  "trailer c = py_slice_last c FILE_TBL_SZ"

definition insert_all :: "kspckfile list \<Rightarrow> file_index \<Rightarrow> file_index" where
  "insert_all rs fs = fold (\<lambda>r. AList.update (path_fnv1 r) r) rs fs"

text \<open>
  Example data. \<open>example_entry f off\<close> is a 256-byte entry with an empty path, the
  fingerprint \<open>f\<close> and the offset \<open>off\<close>; \<open>example_record f off\<close> is what it decodes
  to. \<open>encrypted_container es\<close> is a container of three payload bytes followed by a
  32 MiB trailer: the entries \<open>es\<close> padded with zeros, encrypted with \<open>example_key\<close>,
  so that the last eight bytes of the trailer are the key itself.
\<close>

definition example_entry :: "byte \<Rightarrow> byte \<Rightarrow> byte list" where
  "example_entry f off = replicate 232 0 @ [f] @ replicate 15 0 @ [off] @ replicate 7 0"

definition example_record :: "byte \<Rightarrow> byte \<Rightarrow> kspckfile" where
  "example_record f off =
     \<lparr>file_path = [], align_0E0 = 0, inf_flags = 0, path_leng = 0,
      path_fnv1 = unat f, file_size = 0, file_offs = uint off\<rparr>"

definition pad_table :: "byte list \<Rightarrow> byte list" where
  "pad_table es = es @ replicate (FILE_TBL_SZ - length es) 0"

definition example_entries :: "byte list list" where
  "example_entries = [example_entry 5 1, example_entry 6 2, example_entry 0 0, example_entry 7 3]"

definition duplicate_entries :: "byte list list" where
  "duplicate_entries = [example_entry 5 1, example_entry 5 2, example_entry 0 0, example_entry 7 3]"

definition example_key :: "byte list" where
  "example_key = [0xDE, 0xAD, 0xBE, 0xEF, 0x01, 0x02, 0x03, 0x04]"

definition encrypted_container :: "byte list list \<Rightarrow> byte list" where
  "encrypted_container es = [1, 2, 3] @ xor_numpy (pad_table (concat es)) example_key"

text \<open>
  \<open>oversized_entry\<close> is a 256-byte entry whose path field is all zero and whose
  \<open>path_leng\<close> field, the two bytes at offset 230, is 225.
\<close>

definition oversized_entry :: "byte list" where
  "oversized_entry = replicate 230 0 @ [225, 0] @ replicate 24 0"






section \<open>Properties of the stream cipher\<close>

lemma concat_replicate_nth:
  "a \<noteq> [] \<Longrightarrow> i < m * length a \<Longrightarrow> concat (replicate m a) ! i = a ! (i mod length a)"
proof (induction m arbitrary: i)
  case 0
  then show ?case by simp
next
  case (Suc m)
  show ?case
  proof (cases "i < length a")
    case True
    then show ?thesis by (simp add: nth_append)
  next
    case False
    then have ge: "length a \<le> i" by simp
    with Suc.prems have "i - length a < m * length a" by simp
    with Suc have "concat (replicate m a) ! (i - length a) = a ! ((i - length a) mod length a)"
      by blast
    with ge False show ?thesis by (simp add: nth_append le_mod_geq)
  qed
qed

lemma tiling_covers:
  fixes n l :: nat
  assumes "0 < l"
  shows "n \<le> ((n + l - 1) div l) * l"
proof -
  have "n + l - 1 = ((n + l - 1) div l) * l + (n + l - 1) mod l"
    by simp
  moreover have "(n + l - 1) mod l < l"
    using assms by simp
  ultimately show ?thesis by linarith
qed

lemma length_np_resize: "length (np_resize a n) = n"
proof (cases "a = []")
  case True
  then show ?thesis by (simp add: np_resize_def)
next
  case False
  then have "n \<le> ((n + length a - 1) div length a) * length a"
    using tiling_covers [of "length a" n] by simp
  with False show ?thesis by (simp add: np_resize_def length_concat sum_list_replicate)
qed

lemma np_resize_nth:
  assumes "a \<noteq> []" and "i < n"
  shows "np_resize a n ! i = a ! (i mod length a)"
proof -
  from assms(1) have "n \<le> ((n + length a - 1) div length a) * length a"
    using tiling_covers [of "length a" n] by simp
  with assms(2) have "i < ((n + length a - 1) div length a) * length a"
    by simp
  with assms show ?thesis
    by (simp add: np_resize_def concat_replicate_nth)
qed

lemma length_xor_numpy: "length (xor_numpy d k) = length d"
  by (simp add: xor_numpy_def length_np_resize)

lemma xor_numpy_nth:
  "i < length d \<Longrightarrow> xor_numpy d k ! i = d ! i XOR np_resize k (length d) ! i"
  by (simp add: xor_numpy_def length_np_resize)

lemma xor_numpy_twice: "k \<noteq> [] \<Longrightarrow> xor_numpy (xor_numpy d k) k = d"
proof (rule nth_equalityI)
  show "length (xor_numpy (xor_numpy d k) k) = length d"
    by (simp add: length_xor_numpy)
next
  fix i
  assume "k \<noteq> []" and "i < length (xor_numpy (xor_numpy d k) k)"
  then have i: "i < length d" by (simp add: length_xor_numpy)
  then show "xor_numpy (xor_numpy d k) k ! i = d ! i"
    by (simp add: xor_numpy_nth length_xor_numpy xor.assoc)
qed

lemma key_of_encrypted:
  assumes k: "length k = 8" and dv: "8 dvd length d" and ge: "8 \<le> length d"
    and z: "py_slice_last d 8 = replicate 8 0"
  shows "py_slice_last (xor_numpy d k) 8 = k"
proof (rule nth_equalityI)
  show "length (py_slice_last (xor_numpy d k) 8) = length k"
    using k ge by (simp add: py_slice_last_def length_xor_numpy)
next
  fix i
  assume "i < length (py_slice_last (xor_numpy d k) 8)"
  with ge have i: "i < 8" by (simp add: py_slice_last_def length_xor_numpy)
  from k have ne: "k \<noteq> []" by auto
  from dv obtain q where q: "length d = 8 * q" by (auto simp: dvd_def)
  with ge have "length d - 8 = 8 * (q - 1)" by simp
  then have m: "(length d - 8 + i) mod 8 = i mod 8" by simp
  from i ge have lt: "length d - 8 + i < length d" by simp
  have "d ! (length d - 8 + i) = py_slice_last d 8 ! i"
    using ge i by (simp add: py_slice_last_def)
  also have "\<dots> = 0" using i by (simp add: z)
  finally have d0: "d ! (length d - 8 + i) = 0" .
  have "py_slice_last (xor_numpy d k) 8 ! i = xor_numpy d k ! (length d - 8 + i)"
    using ge i by (simp add: py_slice_last_def length_xor_numpy)
  also have "\<dots> = d ! (length d - 8 + i) XOR k ! ((length d - 8 + i) mod length k)"
    using lt ne by (simp add: xor_numpy_nth np_resize_nth)
  also have "\<dots> = k ! i"
    using d0 m k i by simp
  finally show "py_slice_last (xor_numpy d k) 8 ! i = k ! i" .
qed

section \<open>Decoding the example entries\<close>

lemma le_uint_zeros: "le_uint (replicate n 0) = 0"
  by (induction n) auto

lemma le_sint_zeros: "0 < n \<Longrightarrow> le_sint (replicate n 0) = 0"
proof -
  assume "0 < n"
  then have "(2::int) ^ 1 \<le> 2 ^ (8 * n)"
    by (intro power_increasing) auto
  then have "(2::int) div 2 \<le> 2 ^ (8 * n) div 2"
    by (intro zdiv_mono1) auto
  then have "(0::int) < 2 ^ (8 * n) div 2" by simp
  then show ?thesis
    by (simp add: le_sint_def le_uint_zeros Let_def)
qed

lemma length_example_entry: "length (example_entry f off) = 256"
  by (simp add: example_entry_def)

lemma uint_byte_small: "uint (off :: byte) < 9223372036854775808"
proof -
  have "uint off < 2 ^ LENGTH(8)" by (rule uint_lt2p)
  then show ?thesis by simp
qed

lemma KsPckFile_example_entry: "KsPckFile (example_entry f off) = Inr (example_record f off)"
  using uint_byte_small [of off]
  by (simp add: example_entry_def example_record_def KsPckFile_def FILE_PATH_SZ_def bytesio_read_def
      unpack_bytes_def unpack_sint_def unpack_uint_def le_sint_zeros le_uint_zeros
      py_slice_to_def decode_utf8_def le_sint_def)

lemma FILE_TBL_SZ_value: "FILE_TBL_SZ = 33554432"
  by (simp add: FILE_TBL_SZ_def)

lemma FILE_ITM_SZ_value: "FILE_ITM_SZ = 256"
  by (simp add: FILE_ITM_SZ_def)

section \<open>Properties of the index\<close>

lemma parse_loop_stop:
  assumes "i < FILE_TBL_SZ div FILE_ITM_SZ"
    and "KsPckFile (chunk tbl i) = Inr s" and "path_fnv1 s = 0"
  shows "parse_loop i tbl fs = Inr fs"
  using assms by (subst parse_loop.simps) (simp add: chunk_def Let_def)

lemma parse_loop_step:
  assumes "i < FILE_TBL_SZ div FILE_ITM_SZ"
    and "KsPckFile (chunk tbl i) = Inr r" and "path_fnv1 r \<noteq> 0"
  shows "parse_loop i tbl fs = parse_loop (Suc i) tbl (AList.update (path_fnv1 r) r fs)"
  using assms by (subst parse_loop.simps) (simp add: chunk_def Let_def)

lemma parse_loop_closed:
  assumes "i + length rs < FILE_TBL_SZ div FILE_ITM_SZ"
    and "map (\<lambda>j. KsPckFile (chunk tbl j)) [i..<i + length rs] = map Inr rs"
    and "\<forall>r\<in>set rs. path_fnv1 r \<noteq> 0"
    and "KsPckFile (chunk tbl (i + length rs)) = Inr s" and "path_fnv1 s = 0"
  shows "parse_loop i tbl fs = Inr (insert_all rs fs)"
  using assms
proof (induction rs arbitrary: i fs)
  case Nil
  then show ?case by (simp add: parse_loop_stop insert_all_def)
next
  case (Cons r rs)
  have e: "[i..<i + length (r # rs)] = i # [Suc i..<Suc i + length rs]"
    by (simp add: upt_conv_Cons del: upt_Suc)
  from Cons.prems(2) have hd: "KsPckFile (chunk tbl i) = Inr r"
    and tl: "map (\<lambda>j. KsPckFile (chunk tbl j)) [Suc i..<Suc i + length rs] = map Inr rs"
    unfolding e by simp_all
  from Cons.prems have "parse_loop i tbl fs = parse_loop (Suc i) tbl (AList.update (path_fnv1 r) r fs)"
    using hd by (intro parse_loop_step) auto
  also have "\<dots> = Inr (insert_all rs (AList.update (path_fnv1 r) r fs))"
    using Cons.prems tl by (intro Cons.IH) auto
  finally show ?case by (simp add: insert_all_def)
qed

lemma parse_file_tbl_short:
  "length c < FILE_TBL_SZ \<Longrightarrow> parse_file_tbl (KsPck c) = Inl OSError"
  by (simp add: parse_file_tbl_def KsPck_def open_rb_def seek_end_def)

lemma parse_file_tbl_long:
  assumes "FILE_TBL_SZ \<le> length c"
  shows "parse_file_tbl (KsPck c) =
     (case parse_loop 0 (xor_numpy (trailer c) (py_slice_last (trailer c) 8)) [] of
        Inl e \<Rightarrow> Inl e
      | Inr fs \<Rightarrow>
          Inr \<lparr>files = fs, fp = \<lparr>content = c, pos = length c\<rparr>,
               xork = Some (py_slice_last (trailer c) 8),
               ftbl = Some (xor_numpy (trailer c) (py_slice_last (trailer c) 8))\<rparr>)"
proof -
  have sz: "0 < FILE_TBL_SZ" by (simp add: FILE_TBL_SZ_def)
  have rd: "take FILE_TBL_SZ (drop (length c - FILE_TBL_SZ) c) = trailer c"
    using assms by (simp add: trailer_def py_slice_last_def)
  have len: "length (trailer c) = FILE_TBL_SZ"
    using assms by (simp add: trailer_def py_slice_last_def)
  show ?thesis
    using assms sz
    by (simp add: parse_file_tbl_def KsPck_def open_rb_def seek_end_def file_read_def Let_def
        rd len nat_diff_distrib' split: sum.splits)
qed

lemma update_fresh: "k \<notin> fst ` set al \<Longrightarrow> AList.update k v al = al @ [(k, v)]"
  by (induction al) auto

lemma insert_all_distinct:
  "distinct (map fst fs @ map path_fnv1 rs) \<Longrightarrow>
     insert_all rs fs = fs @ map (\<lambda>r. (path_fnv1 r, r)) rs"
proof (induction rs arbitrary: fs)
  case Nil
  then show ?case by (simp add: insert_all_def)
next
  case (Cons r rs)
  from Cons.prems have fresh: "path_fnv1 r \<notin> fst ` set fs"
    by auto
  then have upd: "AList.update (path_fnv1 r) r fs = fs @ [(path_fnv1 r, r)]"
    by (rule update_fresh)
  from Cons.prems have "distinct (map fst (fs @ [(path_fnv1 r, r)]) @ map path_fnv1 rs)"
    by auto
  then have "insert_all rs (fs @ [(path_fnv1 r, r)]) =
      (fs @ [(path_fnv1 r, r)]) @ map (\<lambda>r. (path_fnv1 r, r)) rs"
    by (rule Cons.IH)
  with upd show ?case by (simp add: insert_all_def)
qed

lemma find_append_case:
  "find P (xs @ ys) = (case find P xs of None \<Rightarrow> find P ys | Some x \<Rightarrow> Some x)"
  by (induction xs) auto

lemma map_of_insert_all:
  "map_of (insert_all rs fs) k =
     (case find (\<lambda>r. path_fnv1 r = k) (rev rs) of None \<Rightarrow> map_of fs k | Some r \<Rightarrow> Some r)"
proof (induction rs arbitrary: fs)
  case Nil
  then show ?case by (simp add: insert_all_def)
next
  case (Cons r rs)
  have "map_of (insert_all (r # rs) fs) k = map_of (insert_all rs (AList.update (path_fnv1 r) r fs)) k"
    by (simp add: insert_all_def)
  also have "\<dots> = (case find (\<lambda>r. path_fnv1 r = k) (rev rs) of
        None \<Rightarrow> map_of (AList.update (path_fnv1 r) r fs) k | Some r \<Rightarrow> Some r)"
    by (rule Cons.IH)
  finally show ?case
    by (simp add: find_append_case update_conv' split: option.splits)
qed

lemma keys_insert_all: "fst ` set (insert_all rs fs) = fst ` set fs \<union> path_fnv1 ` set rs"
proof (induction rs arbitrary: fs)
  case Nil
  then show ?case by (simp add: insert_all_def)
next
  case (Cons r rs)
  have "insert_all (r # rs) fs = insert_all rs (AList.update (path_fnv1 r) r fs)"
    by (simp add: insert_all_def)
  with Cons.IH [of "AList.update (path_fnv1 r) r fs"] show ?case
    by (simp add: dom_update)
qed

lemma set_update_subset: "set (AList.update k v al) \<subseteq> insert (k, v) (set al)"
  by (induction al) auto

lemma values_insert_all: "snd ` set (insert_all rs fs) \<subseteq> snd ` set fs \<union> set rs"
proof (induction rs arbitrary: fs)
  case Nil
  then show ?case by (simp add: insert_all_def)
next
  case (Cons r rs)
  have e: "insert_all (r # rs) fs = insert_all rs (AList.update (path_fnv1 r) r fs)"
    by (simp add: insert_all_def)
  have "snd ` set (AList.update (path_fnv1 r) r fs) \<subseteq> insert r (snd ` set fs)"
    using set_update_subset [of "path_fnv1 r" r fs] by auto
  with Cons.IH [of "AList.update (path_fnv1 r) r fs"] show ?case
    unfolding e by auto
qed

lemma length_update_le: "length (AList.update k v al) \<le> Suc (length al)"
  by (induction al) auto

lemma length_insert_all: "length (insert_all rs fs) \<le> length fs + length rs"
proof (induction rs arbitrary: fs)
  case Nil
  then show ?case by (simp add: insert_all_def)
next
  case (Cons r rs)
  have "insert_all (r # rs) fs = insert_all rs (AList.update (path_fnv1 r) r fs)"
    by (simp add: insert_all_def)
  moreover have "length (insert_all rs (AList.update (path_fnv1 r) r fs))
      \<le> length (AList.update (path_fnv1 r) r fs) + length rs"
    by (rule Cons.IH)
  moreover have "length (AList.update (path_fnv1 r) r fs) \<le> Suc (length fs)"
    by (rule length_update_le)
  ultimately show ?case by simp
qed

lemma find_rev_last:
  "l < length rs \<Longrightarrow> P (rs ! l) \<Longrightarrow> (\<forall>m. l < m \<and> m < length rs \<longrightarrow> \<not> P (rs ! m))
     \<Longrightarrow> find P (rev rs) = Some (rs ! l)"
proof (induction rs rule: rev_induct)
  case Nil
  then show ?case by simp
next
  case (snoc x xs)
  show ?case
  proof (cases "l = length xs")
    case True
    with snoc.prems show ?thesis by simp
  next
    case False
    with snoc.prems have l: "l < length xs" by simp
    have "\<not> P ((xs @ [x]) ! length xs)"
      using snoc.prems(3) [rule_format, of "length xs"] l by simp
    then have nx: "\<not> P x" by simp
    have "\<forall>m. l < m \<and> m < length xs \<longrightarrow> \<not> P (xs ! m)"
    proof (intro allI impI)
      fix m assume m: "l < m \<and> m < length xs"
      have "\<not> P ((xs @ [x]) ! m)"
        using snoc.prems(3) [rule_format, of m] m by simp
      with m show "\<not> P (xs ! m)" by (simp add: nth_append)
    qed
    with l snoc.prems(2) have "find P (rev xs) = Some (xs ! l)"
      by (intro snoc.IH) (simp_all add: nth_append)
    with nx l show ?thesis by (simp add: nth_append)
  qed
qed

lemma parse_file_tbl_index:
  assumes "FILE_TBL_SZ \<le> length c"
    and "tbl = xor_numpy (trailer c) (py_slice_last (trailer c) 8)"
    and "i < FILE_TBL_SZ div FILE_ITM_SZ"
    and "length rs = i"
    and "map (\<lambda>j. KsPckFile (chunk tbl j)) [0..<i] = map Inr rs"
    and "\<forall>r\<in>set rs. path_fnv1 r \<noteq> 0"
    and "KsPckFile (chunk tbl i) = Inr s" and "path_fnv1 s = 0"
  shows "parse_file_tbl (KsPck c) =
     Inr \<lparr>files = insert_all rs [], fp = \<lparr>content = c, pos = length c\<rparr>,
          xork = Some (py_slice_last (trailer c) 8), ftbl = Some tbl\<rparr>"
proof -
  have "parse_loop 0 tbl [] = Inr (insert_all rs [])"
    using assms(3-8) by (intro parse_loop_closed [where s = s]) simp_all
  with assms(1,2) show ?thesis
    by (simp add: parse_file_tbl_long)
qed

section \<open>The example containers\<close>

lemma length_pad_table: "length es \<le> FILE_TBL_SZ \<Longrightarrow> length (pad_table es) = FILE_TBL_SZ"
  by (simp add: pad_table_def)

lemma key_pad_table:
  "length es + 8 \<le> FILE_TBL_SZ \<Longrightarrow> py_slice_last (pad_table es) 8 = replicate 8 0"
  by (simp add: py_slice_last_def pad_table_def)

lemma chunk_concat:
  "\<forall>e\<in>set es. length e = FILE_ITM_SZ \<Longrightarrow> j < length es \<Longrightarrow> chunk (concat es @ rest) j = es ! j"
proof (induction es arbitrary: j)
  case Nil
  then show ?case by simp
next
  case (Cons e es)
  show ?case
  proof (cases j)
    case 0
    with Cons.prems show ?thesis by (simp add: chunk_def py_slice_def)
  next
    case (Suc m)
    with Cons.prems have "chunk (concat es @ rest) m = es ! m"
      by (intro Cons.IH) auto
    moreover have "chunk (concat (e # es) @ rest) (Suc m) = chunk (concat es @ rest) m"
      using Cons.prems by (simp add: chunk_def py_slice_def)
    ultimately show ?thesis using Suc by simp
  qed
qed

lemma encrypted_container_trailer:
  assumes "length (concat es) + 8 \<le> FILE_TBL_SZ"
  shows "length (encrypted_container es) = FILE_TBL_SZ + 3"
    and "trailer (encrypted_container es) = xor_numpy (pad_table (concat es)) example_key"
    and "py_slice_last (trailer (encrypted_container es)) 8 = example_key"
    and "xor_numpy (trailer (encrypted_container es)) example_key = pad_table (concat es)"
proof -
  from assms have len: "length (pad_table (concat es)) = FILE_TBL_SZ"
    by (simp add: length_pad_table)
  show "length (encrypted_container es) = FILE_TBL_SZ + 3"
    by (simp add: encrypted_container_def length_xor_numpy len)
  show t: "trailer (encrypted_container es) = xor_numpy (pad_table (concat es)) example_key"
    by (simp add: encrypted_container_def trailer_def py_slice_last_def length_xor_numpy len)
  have "py_slice_last (xor_numpy (pad_table (concat es)) example_key) 8 = example_key"
  proof (rule key_of_encrypted)
    show "length example_key = 8" by (simp add: example_key_def)
    show "8 dvd length (pad_table (concat es))" by (simp add: len FILE_TBL_SZ_value)
    show "8 \<le> length (pad_table (concat es))" by (simp add: len FILE_TBL_SZ_value)
    show "py_slice_last (pad_table (concat es)) 8 = replicate 8 0"
      using assms by (rule key_pad_table)
  qed
  with t show "py_slice_last (trailer (encrypted_container es)) 8 = example_key" by simp
  have "example_key \<noteq> []" by (simp add: example_key_def)
  then show "xor_numpy (trailer (encrypted_container es)) example_key = pad_table (concat es)"
    unfolding t by (rule xor_numpy_twice)
qed

lemma example_sizes:
  "length (concat example_entries) + 8 \<le> FILE_TBL_SZ"
  "length (concat duplicate_entries) + 8 \<le> FILE_TBL_SZ"
  by (simp_all add: example_entries_def duplicate_entries_def length_example_entry FILE_TBL_SZ_value)

lemma encrypted_table:
  assumes "length (concat es) + 8 \<le> FILE_TBL_SZ"
  shows "xor_numpy (trailer (encrypted_container es))
           (py_slice_last (trailer (encrypted_container es)) 8) = pad_table (concat es)"
  using encrypted_container_trailer(3,4) [OF assms] by simp

lemma example_chunks:
  "j < 4 \<Longrightarrow> chunk (pad_table (concat example_entries)) j = example_entries ! j"
  "j < 4 \<Longrightarrow> chunk (pad_table (concat duplicate_entries)) j = duplicate_entries ! j"
  unfolding pad_table_def
  by (rule chunk_concat;
      auto simp: example_entries_def duplicate_entries_def length_example_entry FILE_ITM_SZ_value)+

lemma example_decoded:
  "map (\<lambda>j. KsPckFile (chunk (pad_table (concat example_entries)) j)) [0..<2]
     = map Inr [example_record 5 1, example_record 6 2]"
  "KsPckFile (chunk (pad_table (concat example_entries)) 2) = Inr (example_record 0 0)"
  "map (\<lambda>j. KsPckFile (chunk (pad_table (concat duplicate_entries)) j)) [0..<2]
     = map Inr [example_record 5 1, example_record 5 2]"
  "KsPckFile (chunk (pad_table (concat duplicate_entries)) 2) = Inr (example_record 0 0)"
proof -
  have u: "[0..<2] = [0, Suc 0]" by (simp add: numeral_2_eq_2)
  have e: "example_entries ! 0 = example_entry 5 1" "example_entries ! Suc 0 = example_entry 6 2"
    "example_entries ! 2 = example_entry 0 0"
    by (simp_all add: example_entries_def)
  have d: "duplicate_entries ! 0 = example_entry 5 1" "duplicate_entries ! Suc 0 = example_entry 5 2"
    "duplicate_entries ! 2 = example_entry 0 0"
    by (simp_all add: duplicate_entries_def)
  show "map (\<lambda>j. KsPckFile (chunk (pad_table (concat example_entries)) j)) [0..<2]
     = map Inr [example_record 5 1, example_record 6 2]"
    unfolding u by (simp add: example_chunks e KsPckFile_example_entry)
  show "KsPckFile (chunk (pad_table (concat example_entries)) 2) = Inr (example_record 0 0)"
    by (simp add: example_chunks e KsPckFile_example_entry)
  show "map (\<lambda>j. KsPckFile (chunk (pad_table (concat duplicate_entries)) j)) [0..<2]
     = map Inr [example_record 5 1, example_record 5 2]"
    unfolding u by (simp add: example_chunks d KsPckFile_example_entry)
  show "KsPckFile (chunk (pad_table (concat duplicate_entries)) 2) = Inr (example_record 0 0)"
    by (simp add: example_chunks d KsPckFile_example_entry)
qed

lemma example_bounds: "(2::nat) < FILE_TBL_SZ div FILE_ITM_SZ"
  by (simp add: FILE_TBL_SZ_value FILE_ITM_SZ_value)

lemma example_parse:
  "parse_file_tbl (KsPck (encrypted_container example_entries)) =
     Inr \<lparr>files = [(5, example_record 5 1), (6, example_record 6 2)],
          fp = \<lparr>content = encrypted_container example_entries,
                pos = length (encrypted_container example_entries)\<rparr>,
          xork = Some example_key,
          ftbl = Some (pad_table (concat example_entries))\<rparr>"
proof -
  let ?c = "encrypted_container example_entries"
  have ge: "FILE_TBL_SZ \<le> length ?c"
    using encrypted_container_trailer(1) [OF example_sizes(1)] by simp
  have t: "pad_table (concat example_entries) = xor_numpy (trailer ?c) (py_slice_last (trailer ?c) 8)"
    using encrypted_table [OF example_sizes(1)] by simp
  have nz: "\<forall>r\<in>set [example_record 5 1, example_record 6 2]. path_fnv1 r \<noteq> 0"
    by (simp add: example_record_def)
  have z: "path_fnv1 (example_record 0 0) = 0"
    by (simp add: example_record_def)
  have "parse_file_tbl (KsPck ?c) =
     Inr \<lparr>files = insert_all [example_record 5 1, example_record 6 2] [],
          fp = \<lparr>content = ?c, pos = length ?c\<rparr>,
          xork = Some (py_slice_last (trailer ?c) 8),
          ftbl = Some (pad_table (concat example_entries))\<rparr>"
    by (rule parse_file_tbl_index [OF ge t example_bounds _ example_decoded(1) nz example_decoded(2) z])
       simp
  then show ?thesis
    by (simp add: encrypted_container_trailer(3) [OF example_sizes(1)] insert_all_def
        example_record_def)
qed

lemma duplicate_chunk_records:
  "KsPckFile (chunk (pad_table (concat duplicate_entries)) 0) = Inr (example_record 5 1)"
  "KsPckFile (chunk (pad_table (concat duplicate_entries)) (Suc 0)) = Inr (example_record 5 2)"
  "KsPckFile (chunk (pad_table (concat duplicate_entries)) 2) = Inr (example_record 0 0)"
  using example_chunks(2) [of 0] example_chunks(2) [of "Suc 0"] example_chunks(2) [of 2]
  by (simp_all add: duplicate_entries_def KsPckFile_example_entry)

lemma KsPckFile_errors:
  "KsPckFile raw = Inl e \<Longrightarrow> e = StructError \<or> e = UnicodeDecodeError"
  by (auto simp: KsPckFile_def bytesio_read_def unpack_bytes_def unpack_sint_def unpack_uint_def
      decode_utf8_def Let_def split: sum.splits if_splits)

lemma parse_loop_errors:
  "parse_loop i tbl fs = Inl e \<Longrightarrow> e = StructError \<or> e = UnicodeDecodeError"
proof (induction i tbl fs rule: parse_loop.induct)
  case (1 i tbl fs)
  let ?r = "KsPckFile (py_slice tbl (i * FILE_ITM_SZ) (i * FILE_ITM_SZ + FILE_ITM_SZ))"
  from "1.prems" have lt: "i < FILE_TBL_SZ div FILE_ITM_SZ"
    by (subst (asm) parse_loop.simps) (simp split: if_splits)
  show ?case
  proof (cases ?r)
    case (Inl e')
    with "1.prems" lt have "e = e'"
      by (subst (asm) parse_loop.simps) (simp add: Let_def)
    with KsPckFile_errors [OF Inl] show ?thesis by simp
  next
    case (Inr r)
    with "1.prems" lt have nz: "path_fnv1 r \<noteq> 0"
      and rec: "parse_loop (i + 1) tbl (AList.update (path_fnv1 r) r fs) = Inl e"
      by (subst (asm) parse_loop.simps, simp add: Let_def split: if_splits)+
    from "1.IH" [OF lt refl refl Inr nz rec] show ?thesis .
  qed
qed

section \<open>Claims about the stream cipher\<close>

text \<open>
  C3. The stream cipher is involutive: for every byte buffer \<open>d\<close> and every non-empty key
  \<open>k\<close>, applying \<open>xor_numpy\<close> with key \<open>k\<close> twice returns \<open>d\<close> unchanged.
\<close>

theorem xor_numpy_involutive: "k \<noteq> [] \<Longrightarrow> xor_numpy (xor_numpy d k) k = d"
  by (rule xor_numpy_twice)

theorem xor_numpy_involutive_witness:
  "[0xFF :: byte] \<noteq> [] \<and> xor_numpy (xor_numpy [1, 2, 3] [0xFF]) [0xFF] = [1, 2, 3]"
  using xor_numpy_involutive [of "[0xFF]" "[1, 2, 3]"] by simp

text \<open>
  C4. For every data buffer and every non-empty key, \<open>xor_numpy\<close> returns a buffer of the
  length of the data whose byte at position \<open>i\<close> is \<open>data[i] XOR key[i mod len(key)]\<close>:
  the key is tiled cyclically and only the first \<open>len(data)\<close> bytes of the tiling are
  used, whether the key is shorter than, as long as or longer than the data; empty data
  gives empty output.
\<close>

theorem xor_numpy_tiles_key:
  assumes "k \<noteq> []"
  shows "length (xor_numpy d k) = length d
       \<and> (\<forall>i < length d. xor_numpy d k ! i = d ! i XOR k ! (i mod length k))
       \<and> xor_numpy [] k = []"
proof (intro conjI allI impI)
  show "length (xor_numpy d k) = length d"
    by (rule length_xor_numpy)
next
  fix i
  assume "i < length d"
  with assms show "xor_numpy d k ! i = d ! i XOR k ! (i mod length k)"
    by (simp add: xor_numpy_nth np_resize_nth)
next
  have "length (xor_numpy [] k) = 0"
    by (simp add: length_xor_numpy)
  then show "xor_numpy [] k = []" by simp
qed

theorem xor_numpy_tiles_key_witness:
  "[0xFF :: byte] \<noteq> []
   \<and> length (xor_numpy [1, 2, 3] [0xFF]) = 3
   \<and> xor_numpy [1, 2, 3] [0xFF] ! 0 = 0xFE
   \<and> xor_numpy [1, 2, 3] [0xFF] ! 1 = 0xFD
   \<and> xor_numpy [1, 2, 3] [0xFF] ! 2 = 0xFC
   \<and> xor_numpy [] [0xFF] = []
   \<and> xor_numpy [1] [0xFF, 0x0F, 0xF0] ! 0 = 0xFE"
proof -
  have ne: "[0xFF :: byte] \<noteq> []" by simp
  have ne3: "[0xFF, 0x0F, 0xF0 :: byte] \<noteq> []" by simp
  from xor_numpy_tiles_key [OF ne3, of "[1]"]
  have b3: "xor_numpy [1] [0xFF, 0x0F, 0xF0] ! 0 = 0xFE" by simp
  note t = xor_numpy_tiles_key [OF ne, of "[1, 2, 3]"]
  from t have a: "length (xor_numpy [1, 2, 3] [0xFF]) = 3" by simp
  from t have n: "i < 3 \<Longrightarrow> xor_numpy [1, 2, 3] [0xFF] ! i = [1, 2, 3] ! i XOR 0xFF" for i
    by simp
  from t have e: "xor_numpy [] [0xFF] = []" by simp
  from n [of 0] have b0: "xor_numpy [1, 2, 3] [0xFF] ! 0 = 0xFE" by simp
  from n [of 1] have b1: "xor_numpy [1, 2, 3] [0xFF] ! 1 = 0xFD" by simp
  from n [of 2] have b2: "xor_numpy [1, 2, 3] [0xFF] ! 2 = 0xFC" by simp
  from ne a b0 b1 b2 e b3 show ?thesis by simp
qed

section \<open>Claims about building the index\<close>

text \<open>
  C6. Building the index for a container whose total size is smaller than the fixed
  32 MiB trailer size fails. The program has no error class of its own for this: the
  failure is the \<open>OSError\<close> that the seek to \<open>FILE_TBL_SZ\<close> bytes before the end raises,
  the first statement of \<open>parse_file_tbl\<close>. On a container whose bytes can be read, that
  exception means a truncated container and nothing else: every other failure of the
  index building is a decoding error of an entry.
\<close>

theorem truncated_container_fails:
  "(length c < FILE_TBL_SZ \<longrightarrow> parse_file_tbl (KsPck c) = Inl OSError)
   \<and> (parse_file_tbl (KsPck c) = Inl OSError \<longrightarrow> length c < FILE_TBL_SZ)"
proof (intro conjI impI)
  assume "length c < FILE_TBL_SZ"
  then show "parse_file_tbl (KsPck c) = Inl OSError"
    by (rule parse_file_tbl_short)
next
  assume e: "parse_file_tbl (KsPck c) = Inl OSError"
  show "length c < FILE_TBL_SZ"
  proof (rule ccontr)
    assume "\<not> length c < FILE_TBL_SZ"
    then have ge: "FILE_TBL_SZ \<le> length c" by simp
    from e obtain tbl where "parse_loop 0 tbl [] = Inl OSError"
      by (auto simp: parse_file_tbl_long [OF ge] split: sum.splits)
    from parse_loop_errors [OF this] show False by simp
  qed
qed

theorem truncated_container_fails_witness:
  "length [1, 2, 3 :: byte] < FILE_TBL_SZ \<and> parse_file_tbl (KsPck [1, 2, 3]) = Inl OSError"
proof -
  have l: "length [1, 2, 3 :: byte] < FILE_TBL_SZ"
    by (simp add: FILE_TBL_SZ_value)
  from l truncated_container_fails [of "[1, 2, 3]", THEN conjunct1] show ?thesis by simp
qed

text \<open>
  C2. When the index is built, the XOR key is the last 8 bytes of the raw, still
  encrypted 32 MiB trailer, and the whole trailer is decrypted with the stream cipher
  under exactly that key; the entries are decoded from the decrypted trailer.
\<close>

theorem key_then_decrypt:
  assumes "parse_file_tbl (KsPck c) = Inr st"
  shows "\<exists>raw key. raw = drop (length c - FILE_TBL_SZ) c \<and> length raw = FILE_TBL_SZ
      \<and> key = drop (FILE_TBL_SZ - 8) raw \<and> length key = 8
      \<and> xork st = Some key
      \<and> ftbl st = Some (xor_numpy raw key)
      \<and> parse_loop 0 (xor_numpy raw key) [] = Inr (files st)"
proof -
  have ge: "FILE_TBL_SZ \<le> length c"
  proof (rule ccontr)
    assume "\<not> FILE_TBL_SZ \<le> length c"
    then have "parse_file_tbl (KsPck c) = Inl OSError"
      by (simp add: parse_file_tbl_short)
    with assms show False by simp
  qed
  then have len: "length (trailer c) = FILE_TBL_SZ"
    by (simp add: trailer_def py_slice_last_def)
  have t: "trailer c = drop (length c - FILE_TBL_SZ) c"
    by (simp add: trailer_def py_slice_last_def)
  have k: "py_slice_last (trailer c) 8 = drop (FILE_TBL_SZ - 8) (trailer c)"
    by (simp add: py_slice_last_def len)
  have k8: "length (py_slice_last (trailer c) 8) = 8"
    by (simp add: py_slice_last_def len FILE_TBL_SZ_value)
  from assms ge have "xork st = Some (py_slice_last (trailer c) 8)
      \<and> ftbl st = Some (xor_numpy (trailer c) (py_slice_last (trailer c) 8))
      \<and> parse_loop 0 (xor_numpy (trailer c) (py_slice_last (trailer c) 8)) [] = Inr (files st)"
    by (auto simp: parse_file_tbl_long split: sum.splits)
  with len t k k8 show ?thesis by metis
qed

theorem key_then_decrypt_witness:
  "\<exists>st. parse_file_tbl (KsPck (encrypted_container example_entries)) = Inr st
     \<and> xork st = Some example_key
     \<and> xork st = Some (drop (FILE_TBL_SZ - 8)
          (drop (length (encrypted_container example_entries) - FILE_TBL_SZ)
             (encrypted_container example_entries)))
     \<and> ftbl st = Some (xor_numpy
          (drop (length (encrypted_container example_entries) - FILE_TBL_SZ)
             (encrypted_container example_entries)) example_key)
     \<and> ftbl st = Some (pad_table (concat example_entries))"
proof -
  let ?c = "encrypted_container example_entries"
  let ?st = "\<lparr>files = [(5, example_record 5 1), (6, example_record 6 2)],
          fp = \<lparr>content = ?c, pos = length ?c\<rparr>,
          xork = Some example_key,
          ftbl = Some (pad_table (concat example_entries))\<rparr>"
  from key_then_decrypt [OF example_parse]
  obtain raw key where r: "raw = drop (length ?c - FILE_TBL_SZ) ?c"
    and k: "key = drop (FILE_TBL_SZ - 8) raw"
    and x: "xork ?st = Some key"
    and f: "ftbl ?st = Some (xor_numpy raw key)"
    by blast
  from x have ke: "key = example_key" by simp
  have x1: "xork ?st = Some example_key" by simp
  have x2: "xork ?st = Some (drop (FILE_TBL_SZ - 8) (drop (length ?c - FILE_TBL_SZ) ?c))"
    using x k r by simp
  have f1: "ftbl ?st = Some (xor_numpy (drop (length ?c - FILE_TBL_SZ) ?c) example_key)"
    using f r ke by simp
  have f2: "ftbl ?st = Some (pad_table (concat example_entries))" by simp
  show ?thesis
    using example_parse x1 x2 f1 f2 by (intro exI [of _ ?st] conjI)
qed

text \<open>
  C1. Index building decodes the decrypted trailer as consecutive 256-byte chunks in
  order from offset 0. When the chunks \<open>0 .. i - 1\<close> decode to the records \<open>rs\<close> with
  non-zero fingerprints and chunk \<open>i\<close> decodes to a record with fingerprint zero, the
  index is what inserting \<open>rs\<close> in order gives: the sentinel is not indexed and no chunk
  after it is looked at, whatever it holds. The index has one record for each distinct
  fingerprint among \<open>rs\<close>, so it holds all \<open>i\<close> records before the sentinel exactly when
  their fingerprints are pairwise distinct, and fewer otherwise.
\<close>

theorem index_stops_at_first_sentinel:
  assumes "FILE_TBL_SZ \<le> length c"
    and "tbl = xor_numpy (trailer c) (py_slice_last (trailer c) 8)"
    and "i < FILE_TBL_SZ div FILE_ITM_SZ"
    and "length rs = i"
    and "map (\<lambda>j. KsPckFile (chunk tbl j)) [0..<i] = map Inr rs"
    and "\<forall>r\<in>set rs. path_fnv1 r \<noteq> 0"
    and "KsPckFile (chunk tbl i) = Inr s" and "path_fnv1 s = 0"
  shows "\<exists>st. parse_file_tbl (KsPck c) = Inr st
      \<and> files st = insert_all rs []
      \<and> snd ` set (files st) \<subseteq> set rs
      \<and> fst ` set (files st) = path_fnv1 ` set rs
      \<and> 0 \<notin> fst ` set (files st)
      \<and> length (files st) \<le> i
      \<and> (distinct (map path_fnv1 rs) \<longrightarrow> files st = map (\<lambda>r. (path_fnv1 r, r)) rs)"
proof -
  let ?st = "\<lparr>files = insert_all rs [], fp = \<lparr>content = c, pos = length c\<rparr>,
          xork = Some (py_slice_last (trailer c) 8), ftbl = Some tbl\<rparr>"
  have p: "parse_file_tbl (KsPck c) = Inr ?st"
    using assms by (rule parse_file_tbl_index)
  have v: "snd ` set (insert_all rs []) \<subseteq> set rs"
    using values_insert_all [of rs "[]"] by simp
  have k: "fst ` set (insert_all rs []) = path_fnv1 ` set rs"
    by (simp add: keys_insert_all)
  have z: "0 \<notin> fst ` set (insert_all rs [])"
    unfolding k using assms(6) by auto
  have n: "length (insert_all rs []) \<le> i"
    using length_insert_all [of rs "[]"] assms(4) by simp
  have d: "distinct (map path_fnv1 rs) \<longrightarrow> insert_all rs [] = map (\<lambda>r. (path_fnv1 r, r)) rs"
    using insert_all_distinct [of "[]" rs] by simp
  from p v k z n d show ?thesis by simp
qed

theorem index_stops_at_first_sentinel_witness:
  "\<exists>st. parse_file_tbl (KsPck (encrypted_container example_entries)) = Inr st
     \<and> files st = [(5, example_record 5 1), (6, example_record 6 2)]"
proof -
  let ?c = "encrypted_container example_entries"
  have ge: "FILE_TBL_SZ \<le> length ?c"
    using encrypted_container_trailer(1) [OF example_sizes(1)] by simp
  have t: "pad_table (concat example_entries) = xor_numpy (trailer ?c) (py_slice_last (trailer ?c) 8)"
    using encrypted_table [OF example_sizes(1)] by simp
  have l: "length [example_record 5 1, example_record 6 2] = 2" by simp
  have nz: "\<forall>r\<in>set [example_record 5 1, example_record 6 2]. path_fnv1 r \<noteq> 0"
    by (simp add: example_record_def)
  have z: "path_fnv1 (example_record 0 0) = 0"
    by (simp add: example_record_def)
  have d: "distinct (map path_fnv1 [example_record 5 1, example_record 6 2])"
    by (simp add: example_record_def)
  from index_stops_at_first_sentinel
    [OF ge t example_bounds l example_decoded(1) nz example_decoded(2) z] d
  show ?thesis by (auto simp: example_record_def)
qed

text \<open>
  The claim as the specification states it, that the index then contains exactly the
  \<open>i\<close> records before the sentinel, fails when two of them share a fingerprint: in the
  trailer below the chunks 0, 1 and 2 have the fingerprints 5, 5 and 0, so the first
  zero fingerprint sits at chunk index 2, and the index holds one record, not two.
\<close>

theorem index_exactly_i_records_counterexample:
  "map (\<lambda>j. map_sum id path_fnv1 (KsPckFile (chunk (pad_table (concat duplicate_entries)) j)))
       [0, 1, 2] = [Inr 5, Inr 5, Inr 0]
   \<and> parse_file_tbl (KsPck (encrypted_container duplicate_entries)) =
     Inr \<lparr>files = [(5, example_record 5 2)],
          fp = \<lparr>content = encrypted_container duplicate_entries,
                pos = length (encrypted_container duplicate_entries)\<rparr>,
          xork = Some example_key,
          ftbl = Some (pad_table (concat duplicate_entries))\<rparr>"
proof -
  let ?c = "encrypted_container duplicate_entries"
  have ge: "FILE_TBL_SZ \<le> length ?c"
    using encrypted_container_trailer(1) [OF example_sizes(2)] by simp
  have t: "pad_table (concat duplicate_entries) = xor_numpy (trailer ?c) (py_slice_last (trailer ?c) 8)"
    using encrypted_table [OF example_sizes(2)] by simp
  have nz: "\<forall>r\<in>set [example_record 5 1, example_record 5 2]. path_fnv1 r \<noteq> 0"
    by (simp add: example_record_def)
  have z: "path_fnv1 (example_record 0 0) = 0"
    by (simp add: example_record_def)
  have "parse_file_tbl (KsPck ?c) =
     Inr \<lparr>files = insert_all [example_record 5 1, example_record 5 2] [],
          fp = \<lparr>content = ?c, pos = length ?c\<rparr>,
          xork = Some (py_slice_last (trailer ?c) 8),
          ftbl = Some (pad_table (concat duplicate_entries))\<rparr>"
    by (rule parse_file_tbl_index [OF ge t example_bounds _ example_decoded(3) nz example_decoded(4) z])
       simp
  then have p: "parse_file_tbl (KsPck ?c) =
     Inr \<lparr>files = [(5, example_record 5 2)],
          fp = \<lparr>content = ?c, pos = length ?c\<rparr>,
          xork = Some example_key,
          ftbl = Some (pad_table (concat duplicate_entries))\<rparr>"
    by (simp add: encrypted_container_trailer(3) [OF example_sizes(2)] insert_all_def
        example_record_def)
  have f: "map (\<lambda>j. map_sum id path_fnv1 (KsPckFile (chunk (pad_table (concat duplicate_entries)) j)))
       [0, 1, 2] = [Inr 5, Inr 5, Inr 0]"
    by (simp add: duplicate_chunk_records example_record_def)
  from f p show ?thesis by simp
qed

text \<open>
  C9. Index building is last-write-wins on fingerprints: every record decoded before the
  sentinel is assigned to the mapping under its fingerprint, so the mapping holds, for
  each fingerprint, the last record before the sentinel that has it; when two records
  before the sentinel share a fingerprint and none after them does, the mapping holds the
  later one.
\<close>

theorem index_last_write_wins:
  assumes "FILE_TBL_SZ \<le> length c"
    and "tbl = xor_numpy (trailer c) (py_slice_last (trailer c) 8)"
    and "i < FILE_TBL_SZ div FILE_ITM_SZ"
    and "length rs = i"
    and "map (\<lambda>j. KsPckFile (chunk tbl j)) [0..<i] = map Inr rs"
    and "\<forall>r\<in>set rs. path_fnv1 r \<noteq> 0"
    and "KsPckFile (chunk tbl i) = Inr s" and "path_fnv1 s = 0"
  shows "\<exists>st. parse_file_tbl (KsPck c) = Inr st
      \<and> files st = insert_all rs []
      \<and> (\<forall>k. map_of (files st) k = find (\<lambda>r. path_fnv1 r = k) (rev rs))
      \<and> (\<forall>j l. j < l \<and> l < i \<and> path_fnv1 (rs ! j) = path_fnv1 (rs ! l)
             \<and> (\<forall>m. l < m \<and> m < i \<longrightarrow> path_fnv1 (rs ! m) \<noteq> path_fnv1 (rs ! l))
           \<longrightarrow> map_of (files st) (path_fnv1 (rs ! j)) = Some (rs ! l))"
proof -
  let ?st = "\<lparr>files = insert_all rs [], fp = \<lparr>content = c, pos = length c\<rparr>,
          xork = Some (py_slice_last (trailer c) 8), ftbl = Some tbl\<rparr>"
  have p: "parse_file_tbl (KsPck c) = Inr ?st"
    using assms by (rule parse_file_tbl_index)
  have m: "map_of (insert_all rs []) k = find (\<lambda>r. path_fnv1 r = k) (rev rs)" for k
    by (simp add: map_of_insert_all split: option.splits)
  have f: "files ?st = insert_all rs []" by simp
  have w: "\<forall>j l. j < l \<and> l < i \<and> path_fnv1 (rs ! j) = path_fnv1 (rs ! l)
             \<and> (\<forall>m. l < m \<and> m < i \<longrightarrow> path_fnv1 (rs ! m) \<noteq> path_fnv1 (rs ! l))
           \<longrightarrow> map_of (insert_all rs []) (path_fnv1 (rs ! j)) = Some (rs ! l)"
  proof (intro allI impI)
    fix j l
    assume c: "j < l \<and> l < i \<and> path_fnv1 (rs ! j) = path_fnv1 (rs ! l)
        \<and> (\<forall>m. l < m \<and> m < i \<longrightarrow> path_fnv1 (rs ! m) \<noteq> path_fnv1 (rs ! l))"
    with assms(4) have "find (\<lambda>r. path_fnv1 r = path_fnv1 (rs ! j)) (rev rs) = Some (rs ! l)"
      by (intro find_rev_last) auto
    then show "map_of (insert_all rs []) (path_fnv1 (rs ! j)) = Some (rs ! l)"
      by (simp only: m)
  qed
  show ?thesis
  proof (intro exI [of _ ?st] conjI)
    show "parse_file_tbl (KsPck c) = Inr ?st" by (rule p)
    show "files ?st = insert_all rs []" by (rule f)
    show "\<forall>k. map_of (files ?st) k = find (\<lambda>r. path_fnv1 r = k) (rev rs)"
      unfolding f using m by blast
    show "\<forall>j l. j < l \<and> l < i \<and> path_fnv1 (rs ! j) = path_fnv1 (rs ! l)
             \<and> (\<forall>m. l < m \<and> m < i \<longrightarrow> path_fnv1 (rs ! m) \<noteq> path_fnv1 (rs ! l))
           \<longrightarrow> map_of (files ?st) (path_fnv1 (rs ! j)) = Some (rs ! l)"
      unfolding f by (rule w)
  qed
qed

theorem index_last_write_wins_witness:
  "\<exists>st. parse_file_tbl (KsPck (encrypted_container duplicate_entries)) = Inr st
     \<and> map_of (files st) 5 = Some (example_record 5 2)
     \<and> example_record 5 2 \<noteq> example_record 5 1"
proof -
  let ?c = "encrypted_container duplicate_entries"
  have ge: "FILE_TBL_SZ \<le> length ?c"
    using encrypted_container_trailer(1) [OF example_sizes(2)] by simp
  have t: "pad_table (concat duplicate_entries) = xor_numpy (trailer ?c) (py_slice_last (trailer ?c) 8)"
    using encrypted_table [OF example_sizes(2)] by simp
  have l: "length [example_record 5 1, example_record 5 2] = 2" by simp
  have nz: "\<forall>r\<in>set [example_record 5 1, example_record 5 2]. path_fnv1 r \<noteq> 0"
    by (simp add: example_record_def)
  have z: "path_fnv1 (example_record 0 0) = 0"
    by (simp add: example_record_def)
  have f: "find (\<lambda>r. path_fnv1 r = 5) (rev [example_record 5 1, example_record 5 2])
      = Some (example_record 5 2)"
    by (simp add: example_record_def)
  have ne: "example_record 5 2 \<noteq> example_record 5 1"
    by (simp add: example_record_def)
  from index_last_write_wins
    [OF ge t example_bounds l example_decoded(3) nz example_decoded(4) z]
  obtain st where "parse_file_tbl (KsPck ?c) = Inr st"
    and "\<forall>k. map_of (files st) k
          = find (\<lambda>r. path_fnv1 r = k) (rev [example_record 5 1, example_record 5 2])"
    by blast
  with f ne show ?thesis by simp
qed

section \<open>Decoding one entry\<close>

lemma KsPckFile_layout:
  assumes "length raw = 256"
  shows "KsPckFile raw =
     (case decode_utf8 (py_slice_to (py_slice raw 0 224) (le_sint (py_slice raw 230 232))) of
        Inl e \<Rightarrow> Inl e
      | Inr path \<Rightarrow>
          Inr \<lparr>file_path = path,
               align_0E0 = le_sint (py_slice raw 224 228),
               inf_flags = le_sint (py_slice raw 228 230),
               path_leng = le_sint (py_slice raw 230 232),
               path_fnv1 = le_uint (py_slice raw 232 240),
               file_size = le_sint (py_slice raw 240 248),
               file_offs = le_sint (py_slice raw 248 256)\<rparr>)"
  using assms
  by (simp add: KsPckFile_def FILE_PATH_SZ_def bytesio_read_def unpack_bytes_def unpack_sint_def
      unpack_uint_def py_slice_def Let_def min_def split: sum.splits)

lemma utf8_valid_zeros: "utf8_valid (replicate n 0)"
  by (induction n) auto

section \<open>Claims about decoding one entry\<close>

text \<open>
  C7, as the code has it. Decoding a 256-byte record whose declared \<open>pathLength\<close> exceeds
  the 224 bytes of the raw path field does not fail on that account: the slice
  \<open>file_path[:path_leng]\<close> is the whole path field, and the record decodes whenever those
  224 bytes are valid UTF-8 (and fails with \<open>UnicodeDecodeError\<close> otherwise, as for any
  other length).
\<close>

theorem oversized_path_length_decodes:
  assumes "length raw = 256" and "224 < le_sint (py_slice raw 230 232)"
  shows "KsPckFile raw =
     (if utf8_valid (take 224 raw) then
        Inr \<lparr>file_path = map (\<lambda>b. char_of (unat b)) (take 224 raw),
             align_0E0 = le_sint (py_slice raw 224 228),
             inf_flags = le_sint (py_slice raw 228 230),
             path_leng = le_sint (py_slice raw 230 232),
             path_fnv1 = le_uint (py_slice raw 232 240),
             file_size = le_sint (py_slice raw 240 248),
             file_offs = le_sint (py_slice raw 248 256)\<rparr>
      else Inl UnicodeDecodeError)"
proof -
  from assms have "py_slice_to (py_slice raw 0 224) (le_sint (py_slice raw 230 232)) = take 224 raw"
    by (simp add: py_slice_to_def py_slice_def)
  with assms(1) show ?thesis
    by (simp add: KsPckFile_layout decode_utf8_def)
qed

lemma oversized_entry_fields:
  "length oversized_entry = 256"
  "take 224 oversized_entry = replicate 224 0"
  "py_slice oversized_entry 224 228 = replicate 4 0"
  "py_slice oversized_entry 228 230 = replicate 2 0"
  "py_slice oversized_entry 230 232 = [225, 0]"
  "py_slice oversized_entry 232 240 = replicate 8 0"
  "py_slice oversized_entry 240 248 = replicate 8 0"
  "py_slice oversized_entry 248 256 = replicate 8 0"
  by (simp_all add: oversized_entry_def py_slice_def)

theorem oversized_path_length_decodes_witness:
  "length oversized_entry = 256
   \<and> 224 < le_sint (py_slice oversized_entry 230 232)
   \<and> KsPckFile oversized_entry =
       Inr \<lparr>file_path = replicate 224 (char_of (0::nat)), align_0E0 = 0, inf_flags = 0,
            path_leng = 225, path_fnv1 = 0, file_size = 0, file_offs = 0\<rparr>"
proof -
  have l: "length oversized_entry = 256" by (rule oversized_entry_fields)
  have g: "224 < le_sint (py_slice oversized_entry 230 232)"
    by (simp add: oversized_entry_fields le_sint_def)
  have p: "le_sint (py_slice oversized_entry 230 232) = 225"
    by (simp add: oversized_entry_fields le_sint_def)
  from oversized_path_length_decodes [OF l g] l g show ?thesis
    by (simp add: oversized_entry_fields(2-4,6-8) p utf8_valid_zeros le_sint_zeros le_uint_zeros)
qed

text \<open>
  The claim as the specification states it, that such a record fails to decode: the
  entry below declares a path length of 225 and decodes to a record.
\<close>

theorem oversized_path_length_counterexample:
  "le_sint (py_slice oversized_entry 230 232) = 225
   \<and> KsPckFile oversized_entry =
       Inr \<lparr>file_path = replicate 224 (char_of (0::nat)), align_0E0 = 0, inf_flags = 0,
            path_leng = 225, path_fnv1 = 0, file_size = 0, file_offs = 0\<rparr>"
proof -
  have p: "le_sint (py_slice oversized_entry 230 232) = 225"
    by (simp add: oversized_entry_fields le_sint_def)
  have q: "le_sint [225, 0 :: byte] = 225"
    by (simp add: le_sint_def)
  have "py_slice_to (py_slice oversized_entry 0 224) 225 = replicate 224 0"
    by (simp add: py_slice_to_def py_slice_def oversized_entry_def)
  then have "KsPckFile oversized_entry =
       Inr \<lparr>file_path = replicate 224 (char_of (0::nat)), align_0E0 = 0, inf_flags = 0,
            path_leng = 225, path_fnv1 = 0, file_size = 0, file_offs = 0\<rparr>"
    by (simp add: KsPckFile_layout oversized_entry_fields(1,3-8) q decode_utf8_def
        utf8_valid_zeros le_sint_zeros le_uint_zeros)
  with p show ?thesis by simp
qed

section \<open>Claims about the progress tracker\<close>

text \<open>
  C10. A progress tracker constructed with \<open>total = 0\<close> never divides by zero: printing
  the progress in that state raises nothing and reports 100 percent with a completely
  filled bar of 40 blocks, for any completed count; so does \<open>update\<close>, which increments
  the count and prints.
\<close>

theorem zero_total_prints_full_bar:
  "print_progress ((ProgressTracker 0)\<lparr>completed := n\<rparr>) =
     Inr \<lparr>bar = replicate 40 Block, percentage = 100, shown_completed = n, shown_total = 0\<rparr>
   \<and> update_progress ((ProgressTracker 0)\<lparr>completed := n\<rparr>) =
     Inr (\<lparr>total = 0, completed = n + 1\<rparr>,
          \<lparr>bar = replicate 40 Block, percentage = 100, shown_completed = n + 1, shown_total = 0\<rparr>)"
  by (simp add: print_progress_def update_progress_def ProgressTracker_def)

theorem zero_total_prints_full_bar_witness:
  "print_progress ((ProgressTracker 0)\<lparr>completed := 7\<rparr>) =
     Inr \<lparr>bar = replicate 40 Block, percentage = 100, shown_completed = 7, shown_total = 0\<rparr>"
  using zero_total_prints_full_bar [of 7] by simp

section \<open>Properties of the output tree\<close>





section \<open>Properties of the extraction of one entry\<close>






section \<open>Claims about the extraction of one entry\<close>






end
